theory Spec2Isabelle
  imports Main
begin

section \<open>Bolt: a document store over an object store\<close>

text \<open>
  The program is the JavaScript class \<open>Bolt\<close> of \<open>bolt.js\<close>. Its methods read the
  whole object store with \<open>getAll\<close> and work on the snapshot in memory; \<open>update\<close> and
  \<open>delete\<close> then issue \<open>put\<close> and \<open>delete\<close> requests on a store handle. This theory
  embeds the matcher, the object spread of \<open>update\<close>, the reduction of \<open>sum\<close>, the
  stages of \<open>aggregate\<close>, and \<open>update\<close> and \<open>delete\<close> with the handle they use.

  How the program's data is represented.
  \<^item> A value is \<open>undefined\<close>, \<open>null\<close>, a boolean, a number, a string, an object, or a
    member of \<open>Object.prototype\<close>. A number is \<open>NaN\<close> or an integer \<open>n\<close>; the addition
    is that of the integers, which is the language's as long as the operands and the
    result are safe integers (magnitude at most \<open>2^53 - 1\<close>), and the theorems on sums
    and on the string form of numbers say so in their hypotheses. An object value
    (a nested object, an array, a date) is named by a number and by the string that
    \<open>String\<close> gives for it; two names are the same object when they are equal.
  \<^item> An object with own properties (a document, a query, a patch, an accumulator) is
    the list of its properties, and its prototype is \<open>Object.prototype\<close> with its
    standard members.
  \<^item> The object store is the list of its records in key order, with the key
    generator's current number. The engine itself does not fail.
\<close>

subsection \<open>Values and the operators of the language\<close>

datatype val =
    VUndefined
  | VNull
  | VBool bool
  | VNum int
  | VNaN
  | VStr string
  | VObj nat string
  | VBuiltin string

type_synonym obj = "(string \<times> val) list"

text \<open>
  The property names that \<open>Object.prototype\<close> supplies to every object. \<open>VBuiltin k\<close>
  is its member of the name \<open>k\<close>: a function, and for \<open>__proto__\<close> the prototype
  itself.
\<close>

definition object_prototype_names :: "string list" where
  "object_prototype_names =
     [''constructor'', ''__defineGetter__'', ''__defineSetter__'', ''hasOwnProperty'',
      ''__lookupGetter__'', ''__lookupSetter__'', ''isPrototypeOf'', ''propertyIsEnumerable'',
      ''toString'', ''valueOf'', ''__proto__'', ''toLocaleString'']"

text \<open>
  \<open>o[k]\<close> for a property name \<open>k\<close>: the own property; without one, the member of
  \<open>Object.prototype\<close> of that name; without one, \<open>undefined\<close>.
\<close>

definition get :: "obj \<Rightarrow> string \<Rightarrow> val" where
  "get ob k =
     (case map_of ob k of
        Some v \<Rightarrow> v
      | None \<Rightarrow> if k \<in> set object_prototype_names then VBuiltin k else VUndefined)"

text \<open>\<open>Object.keys(o)\<close>.\<close>

definition keys :: "obj \<Rightarrow> string list" where
  "keys ob = map fst ob"

text \<open>
  Defining the own property \<open>k\<close> of an object, as an object literal and a spread do:
  an own property keeps its place, a new one goes last.
\<close>

fun set_prop :: "string \<Rightarrow> val \<Rightarrow> obj \<Rightarrow> obj" where
  "set_prop k v [] = [(k, v)]"
| "set_prop k v (p # ps) = (if fst p = k then (k, v) # ps else p # set_prop k v ps)"

text \<open>
  \<open>{...target, ...source}\<close>: for each own property name of \<open>source\<close>, in order, its
  value is read from \<open>source\<close> and defined on the copy of \<open>target\<close>.
\<close>

definition spread :: "obj \<Rightarrow> obj \<Rightarrow> obj" where
  "spread source target = fold (\<lambda>k ob. set_prop k (get source k) ob) (keys source) target"

text \<open>
  \<open>o[k] = v\<close> for a primitive \<open>v\<close>. The assignment defines the own property, except
  for the name \<open>__proto__\<close> on an object that has no own property of that name: there
  the setter of \<open>Object.prototype\<close> runs, which ignores a value that is no object.
\<close>

definition assign :: "string \<Rightarrow> val \<Rightarrow> obj \<Rightarrow> obj" where
  "assign k v ob =
     (if k = ''__proto__'' \<and> map_of ob k = None then ob else set_prop k v ob)"

text \<open>\<open>a === b\<close>. Objects are equal when they are the same object.\<close>

fun strict_eq :: "val \<Rightarrow> val \<Rightarrow> bool" where
  "strict_eq VNaN _ = False"
| "strict_eq _ VNaN = False"
| "strict_eq a b = (a = b)"

text \<open>Truthiness, as \<open>!\<close>, \<open>||\<close> and \<open>if\<close> see it.\<close>

fun truthy :: "val \<Rightarrow> bool" where
  "truthy VUndefined = False"
| "truthy VNull = False"
| "truthy (VBool b) = b"
| "truthy (VNum n) = (n \<noteq> 0)"
| "truthy VNaN = False"
| "truthy (VStr s) = (s \<noteq> [])"
| "truthy (VObj r s) = True"
| "truthy (VBuiltin k) = True"

definition js_or :: "val \<Rightarrow> val \<Rightarrow> val" where
  "js_or a b = (if truthy a then a else b)"

text \<open>The decimal digits of a natural number, and the string of an integer.\<close>

fun digits :: "nat \<Rightarrow> string" where
  "digits n = (if n < 10 then [''0123456789'' ! n]
               else digits (n div 10) @ [''0123456789'' ! (n mod 10)])"

declare digits.simps [simp del]

definition show_int :: "int \<Rightarrow> string" where
  "show_int i = (if i < 0 then CHR ''-'' # digits (nat (- i)) else digits (nat i))"

text \<open>
  The string of a member of \<open>Object.prototype\<close>. The prototype itself is a plain
  object; \<open>constructor\<close> is the function \<open>Object\<close>. The text of a native function is
  given as V8 lays it out (the language leaves the layout to the implementation).
\<close>

definition builtin_str :: "string \<Rightarrow> string" where
  "builtin_str k =
     (if k = ''__proto__'' then ''[object Object]''
      else ''function '' @ (if k = ''constructor'' then ''Object'' else k)
           @ ''() { [native code] }'')"

text \<open>
  \<open>String(v)\<close>, which is also the property name that \<open>o[v]\<close> uses. The string of a
  number is its decimal notation for a safe integer.
\<close>

fun to_str :: "val \<Rightarrow> string" where
  "to_str VUndefined = ''undefined''"
| "to_str VNull = ''null''"
| "to_str (VBool b) = (if b then ''true'' else ''false'')"
| "to_str (VNum n) = show_int n"
| "to_str VNaN = ''NaN''"
| "to_str (VStr s) = s"
| "to_str (VObj r s) = s"
| "to_str (VBuiltin k) = builtin_str k"

text \<open>\<open>Number(v)\<close> for a primitive that is not a string: \<open>None\<close> is \<open>NaN\<close>.\<close>

fun to_num :: "val \<Rightarrow> int option" where
  "to_num VUndefined = None"
| "to_num VNull = Some 0"
| "to_num (VBool b) = Some (if b then 1 else 0)"
| "to_num (VNum n) = Some n"
| "to_num _ = None"

fun is_stringy :: "val \<Rightarrow> bool" where
  "is_stringy (VStr s) = True"
| "is_stringy (VObj r s) = True"
| "is_stringy (VBuiltin k) = True"
| "is_stringy _ = False"

text \<open>
  \<open>a + b\<close>: when either operand is a string (an object becomes its string), the
  strings are concatenated; otherwise both are converted to numbers and added.
\<close>

definition js_add :: "val \<Rightarrow> val \<Rightarrow> val" where
  "js_add a b =
     (if is_stringy a \<or> is_stringy b then VStr (to_str a @ to_str b)
      else (case (to_num a, to_num b) of
              (Some x, Some y) \<Rightarrow> VNum (x + y)
            | _ \<Rightarrow> VNaN))"

subsection \<open>The matcher, find and sum\<close>

text \<open>\<open>Object.keys(query).every(key => doc[key] === query[key])\<close>.\<close>

definition matches :: "obj \<Rightarrow> obj \<Rightarrow> bool" where
  "matches query doc = list_all (\<lambda>key. strict_eq (get doc key) (get query key)) (keys query)"

text \<open>\<open>find(query)\<close> on the snapshot \<open>request.result\<close>.\<close>

definition find_docs :: "obj \<Rightarrow> obj list \<Rightarrow> obj list" where
  "find_docs query result = filter (matches query) result"

text \<open>\<open>sum(field, condition)\<close> on the snapshot.\<close>

definition sum_docs :: "string \<Rightarrow> obj \<Rightarrow> obj list \<Rightarrow> val" where
  "sum_docs field condition result =
     foldl (\<lambda>acc doc. js_add acc (js_or (get doc field) (VNum 0))) (VNum 0)
       (filter (matches condition) result)"

subsection \<open>The group stage and aggregate\<close>

text \<open>
  The group stage collects its accumulators in an object \<open>grouped\<close>, one property per
  group, and emits \<open>Object.values(grouped)\<close>. Own properties are listed with the array
  indices first, in ascending numeric order, and the other names after them in the
  order of their creation. An array index is the canonical decimal string of an
  integer from \<open>0\<close> to \<open>2^32 - 2\<close>.
\<close>

text \<open>The value of a digit is its place in \<open>0123456789\<close>; any other character counts 0.\<close>

definition digit_val :: "char \<Rightarrow> nat" where
  "digit_val c = length (takeWhile (\<lambda>d. d \<noteq> c) ''0123456789'') mod 10"

definition parse_nat :: "string \<Rightarrow> nat" where
  "parse_nat s = foldl (\<lambda>n c. 10 * n + digit_val c) 0 s"

text \<open>
  A string is canonical when printing the number it parses to gives it back; this
  rules out other characters, leading zeros and the empty string.
\<close>

definition array_index :: "string \<Rightarrow> nat option" where
  "array_index s =
     (let n = parse_nat s in if digits n = s \<and> n < 4294967295 then Some n else None)"

definition index_of :: "string \<Rightarrow> nat" where
  "index_of s = (case array_index s of None \<Rightarrow> 0 | Some n \<Rightarrow> n)"

definition own_order :: "('a \<Rightarrow> string) \<Rightarrow> 'a list \<Rightarrow> 'a list" where
  "own_order name xs =
     sort_key (\<lambda>x. index_of (name x)) (filter (\<lambda>x. array_index (name x) \<noteq> None) xs)
     @ filter (\<lambda>x. array_index (name x) = None) xs"

text \<open>The own properties of an object whose properties were created in the order \<open>ps\<close>.\<close>

definition own_entries :: "(string \<times> 'a) list \<Rightarrow> (string \<times> 'a) list" where
  "own_entries ps = own_order fst ps"

text \<open>
  \<open>stage.$group\<close>: its property \<open>_id\<close> (\<open>undefined\<close> when absent), the own properties of
  its property \<open>initial\<close> (none when absent), and \<open>Object.keys(stage.$group)\<close>.
\<close>

record group_spec =
  g_id :: val
  initial :: obj
  g_keys :: "string list"

text \<open>
  A pipeline stage: \<open>stage.$match\<close> and \<open>stage.$group\<close>, each \<open>None\<close> when the stage has
  no such property (or a falsy one).
\<close>

record stage =
  s_match :: "obj option"
  s_group :: "group_spec option"

text \<open>\<open>grouped[key][field] = (grouped[key][field] || 0) + doc[field]\<close>.\<close>

definition accumulate :: "obj \<Rightarrow> string \<Rightarrow> obj \<Rightarrow> obj" where
  "accumulate doc field acc =
     assign field (js_add (js_or (get acc field) (VNum 0)) (get doc field)) acc"

text \<open>
  The body of \<open>result.forEach(doc => ...)\<close> in the group stage. \<open>grouped\<close> is a plain
  object: \<open>grouped[key]\<close> is its own property, or the member of \<open>Object.prototype\<close> of
  that name, which is truthy, so that no accumulator is created for such a name. The
  sums of that document are then assigned to properties of the member, not of
  \<open>grouped\<close>; the model leaves \<open>grouped\<close> as it is and does not follow them, and the
  theorems on the group stage exclude such names.
\<close>

definition group_doc :: "group_spec \<Rightarrow> obj \<Rightarrow> (string \<times> obj) list \<Rightarrow> (string \<times> obj) list" where
  "group_doc g doc grouped =
     (let key = get doc (to_str (g_id g));
          name = to_str key;
          grouped1 = (if map_of grouped name = None \<and> name \<notin> set object_prototype_names
                      then grouped @ [(name, spread (initial g) [(''_id'', key)])]
                      else grouped);
          fields = filter (\<lambda>field. field \<noteq> ''_id'' \<and> field \<noteq> ''initial'') (g_keys g)
      in map (\<lambda>p. if fst p = name then (fst p, fold (accumulate doc) fields (snd p)) else p)
           grouped1)"

definition grouped_of :: "group_spec \<Rightarrow> obj list \<Rightarrow> (string \<times> obj) list" where
  "grouped_of g result = fold (group_doc g) result []"

definition group_stage :: "group_spec \<Rightarrow> obj list \<Rightarrow> obj list" where
  "group_stage g result = map snd (own_entries (grouped_of g result))"

text \<open>The body of \<open>pipeline.forEach((stage) => ...)\<close>, and \<open>aggregate\<close> on the snapshot.\<close>

definition run_stage :: "stage \<Rightarrow> obj list \<Rightarrow> obj list" where
  "run_stage st result =
     (case s_match st of
        Some query \<Rightarrow> filter (matches query) result
      | None \<Rightarrow> (case s_group st of
                   Some g \<Rightarrow> group_stage g result
                 | None \<Rightarrow> result))"

definition aggregate :: "stage list \<Rightarrow> obj list \<Rightarrow> obj list" where
  "aggregate pipeline result = fold run_stage pipeline result"

subsection \<open>The object store, its transactions, update and delete\<close>

text \<open>
  The store is created with \<open>{ keyPath: '_id', autoIncrement: true }\<close>: the key of a
  record is its property \<open>_id\<close>, and a record without one gets the key generator's
  current number. Numbers (not \<open>NaN\<close>) and strings are keys; numbers sort before
  strings. \<open>getAll\<close> returns the records in key order.
\<close>

datatype error = TransactionInactiveError | DataError

record object_store =
  records :: "obj list"
  current :: int

text \<open>
  A store handle belongs to a transaction. \<open>_getTransaction\<close> creates the transaction
  and returns its handle; no request is pending on it. An \<open>await\<close> of a promise that
  settles in a later task gives control back to the event loop, and a transaction on
  which no request is pending has finished when the task of the promise runs.
\<close>

record txn =
  pending :: nat
  finished :: bool

definition getTransaction :: txn where
  "getTransaction = \<lparr>pending = 0, finished = False\<rparr>"

definition await_task :: "txn \<Rightarrow> txn" where
  "await_task t = (if pending t = 0 then t\<lparr>finished := True\<rparr> else t)"

fun valid_key :: "val \<Rightarrow> bool" where
  "valid_key (VNum n) = True"
| "valid_key (VStr s) = True"
| "valid_key _ = False"

fun key_less :: "val \<Rightarrow> val \<Rightarrow> bool" where
  "key_less (VNum a) (VNum b) = (a < b)"
| "key_less (VNum a) (VStr t) = True"
| "key_less (VStr s) (VStr t) = lexordp (\<lambda>c d. (of_char c :: nat) < of_char d) s t"
| "key_less _ _ = False"

definition key_of :: "obj \<Rightarrow> val" where
  "key_of doc = get doc ''_id''"

fun insert_record :: "obj \<Rightarrow> obj list \<Rightarrow> obj list" where
  "insert_record d [] = [d]"
| "insert_record d (r # rs) =
     (if key_less (key_of d) (key_of r) then d # r # rs else r # insert_record d rs)"

text \<open>A record replaces the one stored under its key, or is added in key order.\<close>

definition store_record :: "obj \<Rightarrow> obj list \<Rightarrow> obj list" where
  "store_record d rs =
     (if key_of d \<in> set (map key_of rs)
      then map (\<lambda>r. if key_of r = key_of d then d else r) rs
      else insert_record d rs)"

text \<open>
  \<open>store.put(doc)\<close>. On a handle whose transaction has finished the call throws
  \<open>TransactionInactiveError\<close>, before the key is looked at; a value that is no key
  throws \<open>DataError\<close>.
\<close>

definition put :: "txn \<Rightarrow> obj \<Rightarrow> object_store \<Rightarrow> error + object_store" where
  "put store d st =
     (if finished store then Inl TransactionInactiveError
      else (case key_of d of
              VUndefined \<Rightarrow>
                Inr \<lparr>records = store_record (set_prop ''_id'' (VNum (current st)) d) (records st),
                     current = current st + 1\<rparr>
            | VNum n \<Rightarrow>
                Inr \<lparr>records = store_record d (records st),
                     current = max (current st) (n + 1)\<rparr>
            | VStr s \<Rightarrow> Inr \<lparr>records = store_record d (records st), current = current st\<rparr>
            | _ \<Rightarrow> Inl DataError))"

text \<open>\<open>store.delete(key)\<close>, with the same two errors.\<close>

definition delete_key :: "txn \<Rightarrow> val \<Rightarrow> object_store \<Rightarrow> error + object_store" where
  "delete_key store k st =
     (if finished store then Inl TransactionInactiveError
      else if valid_key k
      then Inr \<lparr>records = filter (\<lambda>r. key_of r \<noteq> k) (records st), current = current st\<rparr>
      else Inl DataError)"

text \<open>
  \<open>Promise.all(docs.map(doc => new Promise(...)))\<close>: every request is issued, in the
  order of \<open>docs\<close>; a request that throws rejects its promise and leaves the store as
  it is. The errors are collected in order.
\<close>

definition issue ::
  "(object_store \<Rightarrow> error + object_store) \<Rightarrow> error list \<times> object_store
     \<Rightarrow> error list \<times> object_store" where
  "issue request es =
     (case request (snd es) of
        Inl e \<Rightarrow> (fst es @ [e], snd es)
      | Inr st' \<Rightarrow> (fst es, st'))"

text \<open>\<open>Promise.all\<close> resolves with the results, or rejects with the first error.\<close>

definition settle :: "error list \<Rightarrow> 'a \<Rightarrow> error + 'a" where
  "settle errs res = (case errs of [] \<Rightarrow> Inr res | e # _ \<Rightarrow> Inl e)"

text \<open>\<open>const updatedDoc = { ...doc, ...update }\<close>.\<close>

definition merge :: "obj \<Rightarrow> obj \<Rightarrow> obj" where
  "merge doc upd = spread upd doc"

text \<open>
  \<open>update(filter, update)\<close>: the settled promise and the store afterwards. The handle
  is taken first; \<open>find\<close> resolves in the success callback of its own request, a later
  task; the requests are issued on the handle after that.
\<close>

definition update :: "obj \<Rightarrow> obj \<Rightarrow> object_store \<Rightarrow> (error + obj list) \<times> object_store" where
  "update flt upd st =
     (let store = getTransaction;
          docs = find_docs flt (records st);
          store = await_task store;
          updated = map (\<lambda>doc. merge doc upd) docs;
          es = fold (\<lambda>updatedDoc. issue (put store updatedDoc)) updated ([], st)
      in (settle (fst es) updated, snd es))"

text \<open>
  \<open>delete(query)\<close>, in the same order; the promise resolves with the number of
  deleted documents.
\<close>

definition delete :: "obj \<Rightarrow> object_store \<Rightarrow> (error + nat) \<times> object_store" where
  "delete query st =
     (let store = getTransaction;
          docs = find_docs query (records st);
          store = await_task store;
          es = fold (\<lambda>doc. issue (delete_key store (key_of doc))) docs ([], st)
      in (settle (fst es) (length docs), snd es))"

subsection \<open>Notions used in the statements\<close>

text \<open>
  The specification treats a missing or non-numeric field as \<open>0\<close> in a sum, and lists
  groups in the order in which their keys are first seen.
\<close>

fun numeric_or_zero :: "val \<Rightarrow> int" where
  "numeric_or_zero (VNum n) = n"
| "numeric_or_zero _ = 0"

definition spec_total :: "string \<Rightarrow> obj list \<Rightarrow> int" where
  "spec_total field docs = sum_list (map (\<lambda>doc. numeric_or_zero (get doc field)) docs)"

definition first_seen :: "'a list \<Rightarrow> 'a list" where
  "first_seen xs = fold (\<lambda>x seen. if x \<in> set seen then seen else seen @ [x]) xs []"

text \<open>
  The additions of a sum are exact when the absolute values of its numbers add up to a
  safe integer: then every number and every partial sum is one.
\<close>

definition safe_int :: "int \<Rightarrow> bool" where
  "safe_int n = (\<bar>n\<bar> \<le> 9007199254740991)"

definition safe_total :: "string \<Rightarrow> obj list \<Rightarrow> int" where
  "safe_total field docs = sum_list (map (\<lambda>doc. \<bar>numeric_or_zero (get doc field)\<bar>) docs)"

text \<open>
  A value whose string the model gives as the language does: not a number beyond the
  safe integers, and not a native function.
\<close>

fun printable :: "val \<Rightarrow> bool" where
  "printable (VNum n) = safe_int n"
| "printable (VBuiltin k) = False"
| "printable _ = True"

text \<open>The grouping key of a document, the property name it becomes, and a partition.\<close>

definition group_key :: "group_spec \<Rightarrow> obj \<Rightarrow> val" where
  "group_key g doc = get doc (to_str (g_id g))"

definition group_name :: "group_spec \<Rightarrow> obj \<Rightarrow> string" where
  "group_name g doc = to_str (group_key g doc)"

definition partition_of :: "group_spec \<Rightarrow> string \<Rightarrow> obj list \<Rightarrow> obj list" where
  "partition_of g name docs = filter (\<lambda>doc. group_name g doc = name) docs"

text \<open>
  The working sets that the theorems on the group stage are about: the name of the
  grouping field and every grouping key are printable, and no key becomes the name of
  a member of \<open>Object.prototype\<close>.
\<close>

definition plain_keys :: "group_spec \<Rightarrow> obj list \<Rightarrow> bool" where
  "plain_keys g docs =
     (printable (g_id g)
      \<and> list_all (\<lambda>doc. printable (group_key g doc)
                   \<and> group_name g doc \<notin> set object_prototype_names) docs)"

definition acc_fields :: "group_spec \<Rightarrow> string list" where
  "acc_fields g = filter (\<lambda>field. field \<noteq> ''_id'' \<and> field \<noteq> ''initial'') (g_keys g)"

text \<open>The names of the groups in the order in which \<open>Object.values\<close> lists them.\<close>

definition emitted_names :: "group_spec \<Rightarrow> obj list \<Rightarrow> string list" where
  "emitted_names g docs = own_order (\<lambda>n. n) (first_seen (map (group_name g) docs))"

text \<open>
  The accumulator of a partition: the object created for the partition's first
  document, \<open>{ _id: key, ...initial }\<close>, to which every document of the partition is
  added in order, field by field.
\<close>

definition new_acc :: "group_spec \<Rightarrow> val \<Rightarrow> obj" where
  "new_acc g key = spread (initial g) [(''_id'', key)]"

definition add_doc :: "group_spec \<Rightarrow> obj \<Rightarrow> obj \<Rightarrow> obj" where
  "add_doc g doc acc = fold (accumulate doc) (acc_fields g) acc"

definition accumulator_of :: "group_spec \<Rightarrow> string \<Rightarrow> obj list \<Rightarrow> obj" where
  "accumulator_of g name docs =
     (case partition_of g name docs of
        [] \<Rightarrow> []
      | doc # rest \<Rightarrow> fold (add_doc g) (doc # rest) (new_acc g (group_key g doc)))"

section \<open>Properties\<close>

subsection \<open>Objects\<close>

lemma map_of_set_prop: "map_of (set_prop k v ob) = (map_of ob)(k \<mapsto> v)"
  by (induction ob) (auto simp: fun_eq_iff)

lemma get_set_prop: "get (set_prop k v ob) k' = (if k' = k then v else get ob k')"
  by (simp add: get_def map_of_set_prop)

lemma set_prop_same: "map_of ob k = Some v \<Longrightarrow> set_prop k v ob = ob"
  by (induction ob) (auto split: if_splits)

lemma map_of_fold_set_prop:
  "map_of (fold (\<lambda>k ob. set_prop k (f k) ob) ks ob) k =
     (if k \<in> set ks then Some (f k) else map_of ob k)"
  by (induction ks arbitrary: ob) (auto simp: map_of_set_prop)

lemma fold_set_prop_same:
  "\<forall>k \<in> set ks. map_of ob k = Some (f k) \<Longrightarrow> fold (\<lambda>k ob. set_prop k (f k) ob) ks ob = ob"
  by (induction ks arbitrary: ob) (auto simp: set_prop_same)

lemma get_spread:
  "get (spread source target) k = (if k \<in> set (keys source) then get source k else get target k)"
  by (simp add: spread_def get_def map_of_fold_set_prop)

lemma strict_eq_iff: "strict_eq a b \<longleftrightarrow> a = b \<and> a \<noteq> VNaN"
  by (cases a; cases b) auto

lemma get_own: "map_of ob k = Some v \<Longrightarrow> get ob k = v"
  by (simp add: get_def)

lemma map_of_missing: "k \<notin> set (keys ob) \<Longrightarrow> map_of ob k = None"
  by (simp add: keys_def map_of_eq_None_iff)

lemma get_missing:
  "k \<notin> set (keys ob) \<Longrightarrow> k \<notin> set object_prototype_names \<Longrightarrow> get ob k = VUndefined"
  by (simp add: get_def map_of_missing)

lemma get_inherited:
  "k \<notin> set (keys ob) \<Longrightarrow> k \<in> set object_prototype_names \<Longrightarrow> get ob k = VBuiltin k"
  by (simp add: get_def map_of_missing)

subsection \<open>Evaluating the definitions on concrete inputs\<close>

lemma digits_small: "n < 10 \<Longrightarrow> digits n = [''0123456789'' ! n]"
  by (simp add: digits.simps)

lemma digits_large: "10 \<le> n \<Longrightarrow> digits n = digits (n div 10) @ [''0123456789'' ! (n mod 10)]"
  by (subst digits.simps) simp

lemma own_names:
  "''_id'' \<notin> set object_prototype_names" "''name'' \<notin> set object_prototype_names"
  "''age'' \<notin> set object_prototype_names" "''x'' \<notin> set object_prototype_names"
  "''zip'' \<notin> set object_prototype_names" "''k'' \<notin> set object_prototype_names"
  "''city'' \<notin> set object_prototype_names" "''amount'' \<notin> set object_prototype_names"
  "''Oslo'' \<notin> set object_prototype_names" "''Bergen'' \<notin> set object_prototype_names"
  "''a'' \<notin> set object_prototype_names" "''1'' \<notin> set object_prototype_names"
  "''30'' \<notin> set object_prototype_names" "''35'' \<notin> set object_prototype_names"
  by (simp_all add: object_prototype_names_def)

lemmas string_defs = show_int_def digits_small digits_large array_index_def parse_nat_def
  digit_val_def

lemmas eval_defs = get_def keys_def spread_def assign_def js_or_def js_add_def
  matches_def find_docs_def sum_docs_def index_of_def
  own_order_def own_entries_def accumulate_def group_doc_def grouped_of_def group_stage_def
  run_stage_def aggregate_def key_of_def getTransaction_def await_task_def put_def
  delete_key_def issue_def settle_def merge_def update_def delete_def first_seen_def
  group_key_def group_name_def partition_of_def acc_fields_def emitted_names_def
  spec_total_def safe_total_def safe_int_def plain_keys_def Let_def own_names

subsection \<open>The merge step of update\<close>

text \<open>
  C1, as stated: the merged document has the \<open>_id\<close> of the original document, whatever
  the patch contains. It fails for a patch with an \<open>_id\<close> of its own:
  \<open>{ ...{_id: 1, name: 'Alice'}, ...{_id: 2} }\<close> has \<open>_id\<close> 2.
\<close>

theorem merge_id_counterexample:
  "get (merge [(''_id'', VNum 1), (''name'', VStr ''Alice'')] [(''_id'', VNum 2)]) ''_id''
     \<noteq> get [(''_id'', VNum 1), (''name'', VStr ''Alice'')] ''_id''"
  by (simp add: merge_def spread_def keys_def get_def)

text \<open>
  C1, amended: the merged document has the \<open>_id\<close> of the patch when the patch has an
  \<open>_id\<close> property, and the \<open>_id\<close> of the original document otherwise.
\<close>

theorem merge_id:
  "get (merge D P) ''_id'' = (if ''_id'' \<in> set (keys P) then get P ''_id'' else get D ''_id'')"
  by (simp add: merge_def get_spread)

subsection \<open>The matcher\<close>

text \<open>
  C6, as stated: the matcher holds iff at every key of the query the document's value
  and the query's are of the same type and value; it holds for the empty query; and a
  field that the document lacks is unequal to any value the query has for it. The last
  part fails for the query \<open>{x: undefined}\<close>, which a document without \<open>x\<close> matches, and
  for the query \<open>{constructor: Object}\<close>, which every document without a \<open>constructor\<close>
  of its own matches, \<open>doc.constructor\<close> being inherited; the first fails for \<open>NaN\<close>,
  which \<open>===\<close> finds unequal to itself.
\<close>

theorem matches_counterexample:
  "''x'' \<in> set (keys [(''x'', VUndefined)]) \<and> ''x'' \<notin> set (keys [(''_id'', VNum 1)])
   \<and> matches [(''x'', VUndefined)] [(''_id'', VNum 1)]
   \<and> ''constructor'' \<in> set (keys [(''constructor'', VBuiltin ''constructor'')])
   \<and> ''constructor'' \<notin> set (keys [(''_id'', VNum 1)])
   \<and> matches [(''constructor'', VBuiltin ''constructor'')] [(''_id'', VNum 1)]
   \<and> get [(''x'', VNaN)] ''x'' = get [(''x'', VNaN)] ''x''
   \<and> \<not> matches [(''x'', VNaN)] [(''x'', VNaN)]"
  by (simp add: matches_def keys_def get_def object_prototype_names_def)

text \<open>
  C6, amended: the matcher holds iff at every key of the query the document's value
  and the query's are the same value and not \<open>NaN\<close> (an object is the same value as
  itself only); it holds for the empty query; a field that the document lacks, of a
  name that \<open>Object.prototype\<close> does not supply, is unequal to any value the query has
  for it other than \<open>undefined\<close>. The matcher is a total function: it has a result for
  every document and query, and does not throw.
\<close>

theorem matches_iff:
  "(matches Q D \<longleftrightarrow> (\<forall>k \<in> set (keys Q). get D k = get Q k \<and> get Q k \<noteq> VNaN))
   \<and> matches [] D
   \<and> (\<forall>k \<in> set (keys Q).
        k \<notin> set (keys D) \<and> k \<notin> set object_prototype_names \<and> get Q k \<noteq> VUndefined
          \<longrightarrow> \<not> matches Q D)"
proof (intro conjI ballI impI)
  show iff: "matches Q D \<longleftrightarrow> (\<forall>k \<in> set (keys Q). get D k = get Q k \<and> get Q k \<noteq> VNaN)"
    by (auto simp: matches_def list_all_iff strict_eq_iff)
  show "matches [] D"
    by (simp add: matches_def keys_def)
  fix k
  assume k: "k \<in> set (keys Q)"
    and missing: "k \<notin> set (keys D) \<and> k \<notin> set object_prototype_names \<and> get Q k \<noteq> VUndefined"
  from missing have "get D k = VUndefined"
    by (simp add: get_missing)
  with missing have "get D k \<noteq> get Q k"
    by auto
  with k show "\<not> matches Q D"
    using iff by blast
qed

theorem matches_iff_witness:
  "matches [(''age'', VNum 30)] [(''_id'', VNum 2), (''name'', VStr ''Bob''), (''age'', VNum 30)]
   \<and> \<not> matches [(''zip'', VNull)] [(''_id'', VNum 2), (''name'', VStr ''Bob''), (''age'', VNum 30)]
   \<and> \<not> matches [(''toString'', VUndefined)] [(''_id'', VNum 1)]"
  using matches_iff [of "[(''age'', VNum 30)]"
      "[(''_id'', VNum 2), (''name'', VStr ''Bob''), (''age'', VNum 30)]"]
    matches_iff [of "[(''zip'', VNull)]"
      "[(''_id'', VNum 2), (''name'', VStr ''Bob''), (''age'', VNum 30)]"]
    matches_iff [of "[(''toString'', VUndefined)]" "[(''_id'', VNum 1)]"]
  by (simp add: keys_def get_def object_prototype_names_def)

subsection \<open>sum\<close>

lemma js_or_numeric:
  "(\<exists>n. v = VNum n) \<or> \<not> truthy v \<Longrightarrow> js_or v (VNum 0) = VNum (numeric_or_zero v)"
  by (cases v) (auto simp: js_or_def)

lemma js_add_nums: "js_add (VNum a) (VNum b) = VNum (a + b)"
  by (simp add: js_add_def)

lemma foldl_sum_numeric:
  "\<forall>d \<in> set ds. (\<exists>n. get d f = VNum n) \<or> \<not> truthy (get d f) \<Longrightarrow>
   foldl (\<lambda>acc doc. js_add acc (js_or (get doc f) (VNum 0))) (VNum a) ds
     = VNum (a + spec_total f ds)"
  by (induction ds arbitrary: a) (simp_all add: spec_total_def js_or_numeric js_add_nums)

text \<open>
  C3, as stated: \<open>sum(f, Q)\<close> is the total of the matched documents' values at \<open>f\<close>, a
  missing or non-numeric value counting 0. It fails for a non-numeric value that is
  truthy: with one stored document whose \<open>age\<close> is the string \<open>'30'\<close>, the reduction
  \<open>0 + ('30' || 0)\<close> gives the string \<open>'030'\<close>, not the number 0.
\<close>

theorem sum_counterexample:
  "sum_docs ''age'' [] [[(''_id'', VNum 1), (''age'', VStr ''30'')]] = VStr ''030''
   \<and> sum_docs ''age'' [] [[(''_id'', VNum 1), (''age'', VStr ''30'')]]
       \<noteq> VNum (spec_total ''age'' (find_docs [] [[(''_id'', VNum 1), (''age'', VStr ''30'')]]))"
  by (simp add: sum_docs_def matches_def keys_def get_def js_or_def js_add_def show_int_def
      digits.simps)

text \<open>
  C3, amended: when the value at \<open>f\<close> of every matched document is a number or is falsy
  (the field is missing and \<open>f\<close> is no name that \<open>Object.prototype\<close> supplies, or it
  holds \<open>undefined\<close>, \<open>null\<close>, \<open>false\<close>, \<open>NaN\<close> or the empty string), and the absolute
  values of the numbers add up to a safe integer, so that every addition is exact,
  \<open>sum(f, Q)\<close> is the total of the numbers, the falsy values counting 0.
\<close>

theorem sum_numeric:
  "\<forall>d \<in> set (find_docs Q docs). (\<exists>n. get d f = VNum n) \<or> \<not> truthy (get d f) \<Longrightarrow>
   safe_int (safe_total f (find_docs Q docs)) \<Longrightarrow>
   sum_docs f Q docs = VNum (spec_total f (find_docs Q docs))"
  using foldl_sum_numeric [of "find_docs Q docs" f 0]
  by (simp add: sum_docs_def find_docs_def)

theorem sum_numeric_witness:
  "find_docs [(''name'', VStr ''Bob'')]
        [[(''_id'', VNum 2), (''name'', VStr ''Bob''), (''age'', VNum 30)],
         [(''_id'', VNum 3), (''name'', VStr ''Bob'')],
         [(''_id'', VNum 4), (''name'', VStr ''Eve''), (''age'', VStr ''x'')]]
     = [[(''_id'', VNum 2), (''name'', VStr ''Bob''), (''age'', VNum 30)],
        [(''_id'', VNum 3), (''name'', VStr ''Bob'')]]
   \<and> safe_int (safe_total ''age''
        [[(''_id'', VNum 2), (''name'', VStr ''Bob''), (''age'', VNum 30)],
         [(''_id'', VNum 3), (''name'', VStr ''Bob'')]])
   \<and> sum_docs ''age'' [(''name'', VStr ''Bob'')]
        [[(''_id'', VNum 2), (''name'', VStr ''Bob''), (''age'', VNum 30)],
         [(''_id'', VNum 3), (''name'', VStr ''Bob'')],
         [(''_id'', VNum 4), (''name'', VStr ''Eve''), (''age'', VStr ''x'')]] = VNum 30"
proof -
  let ?docs = "[[(''_id'', VNum 2), (''name'', VStr ''Bob''), (''age'', VNum 30)],
         [(''_id'', VNum 3), (''name'', VStr ''Bob'')],
         [(''_id'', VNum 4), (''name'', VStr ''Eve''), (''age'', VStr ''x'')]]"
  have found: "find_docs [(''name'', VStr ''Bob'')] ?docs
      = [[(''_id'', VNum 2), (''name'', VStr ''Bob''), (''age'', VNum 30)],
         [(''_id'', VNum 3), (''name'', VStr ''Bob'')]]"
    by (simp add: find_docs_def matches_def keys_def get_def)
  have h: "\<forall>d \<in> set (find_docs [(''name'', VStr ''Bob'')] ?docs).
      (\<exists>n. get d ''age'' = VNum n) \<or> \<not> truthy (get d ''age'')"
    unfolding found by (simp add: get_def own_names)
  have safe: "safe_int (safe_total ''age'' (find_docs [(''name'', VStr ''Bob'')] ?docs))"
    unfolding found by (simp add: safe_int_def safe_total_def get_def own_names)
  from sum_numeric [OF h safe] found safe show ?thesis
    by (simp add: spec_total_def get_def own_names)
qed

subsection \<open>Stages of aggregate other than group\<close>

lemma run_stage_unrecognized: "s_match s = None \<Longrightarrow> s_group s = None \<Longrightarrow> run_stage s ws = ws"
  by (simp add: run_stage_def)

text \<open>
  C7: a stage that has neither a \<open>$match\<close> nor a \<open>$group\<close> property leaves the working
  set as it is, so a pipeline gives the same result with the stage as without it.
\<close>

theorem aggregate_ignores_unrecognized:
  "s_match s = None \<Longrightarrow> s_group s = None \<Longrightarrow>
   run_stage s ws = ws \<and> aggregate (p1 @ s # p2) docs = aggregate (p1 @ p2) docs"
  by (simp add: aggregate_def run_stage_unrecognized)

theorem aggregate_ignores_unrecognized_witness:
  "s_match \<lparr>s_match = None, s_group = None\<rparr> = None
   \<and> s_group \<lparr>s_match = None, s_group = None\<rparr> = None
   \<and> aggregate ([\<lparr>s_match = Some [(''age'', VNum 30)], s_group = None\<rparr>]
        @ \<lparr>s_match = None, s_group = None\<rparr> # [])
       [[(''_id'', VNum 1), (''age'', VNum 26)], [(''_id'', VNum 2), (''age'', VNum 30)]]
     = [[(''_id'', VNum 2), (''age'', VNum 30)]]"
  using aggregate_ignores_unrecognized [of "\<lparr>s_match = None, s_group = None\<rparr>" "[]"
      "[\<lparr>s_match = Some [(''age'', VNum 30)], s_group = None\<rparr>]" "[]"
      "[[(''_id'', VNum 1), (''age'', VNum 26)], [(''_id'', VNum 2), (''age'', VNum 30)]]"]
  by (simp add: aggregate_def run_stage_def matches_def keys_def get_def)

text \<open>
  C4 (a defect of the code): a \<open>$match\<close> stage whose query maps a field to an operator
  object, such as \<open>{$gte: 30}\<close>, is to let every document of the working set through,
  and a stage with a literal is to filter by equality. The stage with a literal does.
  The stage with the operator object compares each document's value with the object
  by \<open>===\<close>, which no stored value satisfies: of the three documents below, whose ages
  are 26, 30 and 35, none is left.
\<close>

theorem match_operator_empties:
  "aggregate [\<lparr>s_match = Some [(''age'', VObj 0 ''[object Object]'')], s_group = None\<rparr>]
     [[(''_id'', VNum 1), (''name'', VStr ''Alice''), (''age'', VNum 26)],
      [(''_id'', VNum 2), (''name'', VStr ''Bob''), (''age'', VNum 30)],
      [(''_id'', VNum 3), (''name'', VStr ''Charlie''), (''age'', VNum 35)]] = []
   \<and> aggregate [\<lparr>s_match = Some [(''age'', VNum 30)], s_group = None\<rparr>]
       [[(''_id'', VNum 1), (''name'', VStr ''Alice''), (''age'', VNum 26)],
        [(''_id'', VNum 2), (''name'', VStr ''Bob''), (''age'', VNum 30)],
        [(''_id'', VNum 3), (''name'', VStr ''Charlie''), (''age'', VNum 35)]]
     = [[(''_id'', VNum 2), (''name'', VStr ''Bob''), (''age'', VNum 30)]]"
  by (simp add: aggregate_def run_stage_def matches_def keys_def get_def)

subsection \<open>update and delete\<close>

lemma stale_handle: "finished (await_task getTransaction)"
  by (simp add: await_task_def getTransaction_def)

lemma fold_put_stale:
  "finished store \<Longrightarrow>
   fold (\<lambda>d. issue (put store d)) ds (es, st)
     = (es @ replicate (length ds) TransactionInactiveError, st)"
  by (induction ds arbitrary: es) (simp_all add: issue_def put_def replicate_append_same)

lemma fold_delete_stale:
  "finished store \<Longrightarrow>
   fold (\<lambda>d. issue (delete_key store (key_of d))) ds (es, st)
     = (es @ replicate (length ds) TransactionInactiveError, st)"
  by (induction ds arbitrary: es) (simp_all add: issue_def delete_key_def replicate_append_same)

text \<open>
  Neither \<open>update\<close> nor \<open>delete\<close> changes the store: the transaction of their handle
  has finished when they issue their requests. They resolve when no document matches,
  and reject otherwise.
\<close>

lemma update_rejects:
  "update Q P st
     = (if find_docs Q (records st) = [] then Inr [] else Inl TransactionInactiveError, st)"
proof -
  let ?docs = "find_docs Q (records st)"
  have "fold (\<lambda>d. issue (put (await_task getTransaction) d)) (map (\<lambda>doc. merge doc P) ?docs)
      ([], st) = (replicate (length ?docs) TransactionInactiveError, st)"
    using fold_put_stale [OF stale_handle, of "map (\<lambda>doc. merge doc P) ?docs" "[]" st]
    by simp
  then show ?thesis
    unfolding update_def Let_def by (cases ?docs) (simp_all add: settle_def)
qed

lemma delete_rejects:
  "delete Q st
     = (if find_docs Q (records st) = [] then Inr 0 else Inl TransactionInactiveError, st)"
proof -
  let ?docs = "find_docs Q (records st)"
  have "fold (\<lambda>d. issue (delete_key (await_task getTransaction) (key_of d))) ?docs ([], st)
      = (replicate (length ?docs) TransactionInactiveError, st)"
    using fold_delete_stale [OF stale_handle, of ?docs "[]" st] by simp
  then show ?thesis
    unfolding delete_def Let_def by (cases ?docs) (simp_all add: settle_def)
qed

text \<open>
  C8 (a defect of the code): after \<open>delete(Q)\<close>, \<open>find(Q)\<close> is to return the empty
  sequence. With Charlie, aged 35, in the store, \<open>delete({age: 35})\<close> rejects with
  \<open>TransactionInactiveError\<close>, the store is as before, and \<open>find({age: 35})\<close> returns
  Charlie.
\<close>

theorem delete_leaves_matches:
  "delete [(''age'', VNum 35)]
     \<lparr>records = [[(''_id'', VNum 1), (''name'', VStr ''Alice''), (''age'', VNum 26)],
                  [(''_id'', VNum 3), (''name'', VStr ''Charlie''), (''age'', VNum 35)]],
       current = 4\<rparr>
     = (Inl TransactionInactiveError,
        \<lparr>records = [[(''_id'', VNum 1), (''name'', VStr ''Alice''), (''age'', VNum 26)],
                     [(''_id'', VNum 3), (''name'', VStr ''Charlie''), (''age'', VNum 35)]],
          current = 4\<rparr>)
   \<and> find_docs [(''age'', VNum 35)]
       (records (snd (delete [(''age'', VNum 35)]
          \<lparr>records = [[(''_id'', VNum 1), (''name'', VStr ''Alice''), (''age'', VNum 26)],
                       [(''_id'', VNum 3), (''name'', VStr ''Charlie''), (''age'', VNum 35)]],
            current = 4\<rparr>)))
     = [[(''_id'', VNum 3), (''name'', VStr ''Charlie''), (''age'', VNum 35)]]"
  by (simp add: delete_rejects find_docs_def matches_def keys_def get_def)

text \<open>
  C9: for every query \<open>Q\<close>, every patch \<open>P\<close> and every store, \<open>update(Q, P)\<close> run twice
  leaves the store that one run leaves. (It leaves the store it found: see above.)
\<close>

theorem update_idempotent:
  "snd (update Q P (snd (update Q P st))) = snd (update Q P st)"
  by (simp add: update_rejects)

theorem update_idempotent_witness:
  "snd (update [(''name'', VStr ''Alice'')] [(''age'', VNum 26)]
     (snd (update [(''name'', VStr ''Alice'')] [(''age'', VNum 26)]
        \<lparr>records = [[(''_id'', VNum 1), (''name'', VStr ''Alice''), (''age'', VNum 25)],
                     [(''_id'', VNum 2), (''name'', VStr ''Bob''), (''age'', VNum 30)]],
          current = 3\<rparr>)))
     = \<lparr>records = [[(''_id'', VNum 1), (''name'', VStr ''Alice''), (''age'', VNum 25)],
                    [(''_id'', VNum 2), (''name'', VStr ''Bob''), (''age'', VNum 30)]],
         current = 3\<rparr>
   \<and> fst (update [(''name'', VStr ''Alice'')] [(''age'', VNum 26)]
        \<lparr>records = [[(''_id'', VNum 1), (''name'', VStr ''Alice''), (''age'', VNum 25)],
                     [(''_id'', VNum 2), (''name'', VStr ''Bob''), (''age'', VNum 30)]],
          current = 3\<rparr>)
     = Inl TransactionInactiveError"
proof -
  let ?st = "\<lparr>records = [[(''_id'', VNum 1), (''name'', VStr ''Alice''), (''age'', VNum 25)],
                     [(''_id'', VNum 2), (''name'', VStr ''Bob''), (''age'', VNum 30)]],
          current = 3\<rparr>"
  have once: "update [(''name'', VStr ''Alice'')] [(''age'', VNum 26)] ?st
      = (Inl TransactionInactiveError, ?st)"
    by (simp add: eval_defs)
  from update_idempotent [of "[(''name'', VStr ''Alice'')]" "[(''age'', VNum 26)]" ?st]
  show ?thesis
    unfolding once by simp
qed

subsection \<open>The group stage\<close>

lemma first_seen_snoc:
  "first_seen (xs @ [x]) = (if x \<in> set (first_seen xs) then first_seen xs else first_seen xs @ [x])"
  by (simp add: first_seen_def)

lemma set_first_seen: "set (first_seen xs) = set xs"
  by (induction xs rule: rev_induct) (auto simp: first_seen_snoc, simp add: first_seen_def)

lemma distinct_first_seen: "distinct (first_seen xs)"
  by (induction xs rule: rev_induct) (auto simp: first_seen_snoc, simp add: first_seen_def)

lemma grouped_of_snoc: "grouped_of g (ds @ [d]) = group_doc g d (grouped_of g ds)"
  by (simp add: grouped_of_def)

lemma map_of_tabulate:
  "map_of (map (\<lambda>n. (n, F n)) ns) n = (if n \<in> set ns then Some (F n) else None)"
  by (induction ns) auto

lemma partition_of_snoc:
  "partition_of g n (ds @ [d]) = (if group_name g d = n then partition_of g n ds @ [d] else partition_of g n ds)"
  by (simp add: partition_of_def)

lemma partition_of_empty: "partition_of g n ds = [] \<longleftrightarrow> n \<notin> group_name g ` set ds"
  by (auto simp: partition_of_def filter_empty_conv)

lemma accumulator_of_snoc:
  "accumulator_of g n (ds @ [d]) =
     (if group_name g d = n
      then (if n \<in> group_name g ` set ds then add_doc g d (accumulator_of g n ds)
            else add_doc g d (new_acc g (group_key g d)))
      else accumulator_of g n ds)"
proof (cases "partition_of g n ds")
  case Nil
  then show ?thesis
    using partition_of_empty [of g n ds]
    by (simp add: accumulator_of_def partition_of_snoc)
next
  case (Cons p ps)
  then show ?thesis
    using partition_of_empty [of g n ds]
    by (simp add: accumulator_of_def partition_of_snoc)
qed

lemma group_doc_eq:
  "group_name g d \<notin> set object_prototype_names \<Longrightarrow>
   group_doc g d grouped =
     map (\<lambda>p. if fst p = group_name g d then (fst p, add_doc g d (snd p)) else p)
       (if map_of grouped (group_name g d) = None
        then grouped @ [(group_name g d, new_acc g (group_key g d))] else grouped)"
  by (simp add: group_doc_def Let_def group_name_def group_key_def add_doc_def acc_fields_def
      new_acc_def)

text \<open>
  The object \<open>grouped\<close> after the loop, when no key becomes the name of a member of
  \<open>Object.prototype\<close>: one property per distinct name, created in the order in which
  the names are first seen, holding the accumulator of its partition.
\<close>

lemma grouped_of_closed:
  "\<forall>d \<in> set ds. group_name g d \<notin> set object_prototype_names \<Longrightarrow>
   grouped_of g ds = map (\<lambda>n. (n, accumulator_of g n ds)) (first_seen (map (group_name g) ds))"
proof (induction ds rule: rev_induct)
  case Nil
  then show ?case by (simp add: grouped_of_def first_seen_def)
next
  case (snoc d ds)
  let ?names = "first_seen (map (group_name g) ds)"
  let ?n = "group_name g d"
  from snoc.prems have own: "?n \<notin> set object_prototype_names"
    by simp
  from snoc have IH: "grouped_of g ds = map (\<lambda>n. (n, accumulator_of g n ds)) ?names"
    by simp
  show ?case
  proof (cases "?n \<in> set ?names")
    case True
    then have seen: "?n \<in> group_name g ` set ds"
      by (simp add: set_first_seen)
    from True have "map_of (grouped_of g ds) ?n \<noteq> None"
      by (simp add: IH map_of_tabulate)
    then have "grouped_of g (ds @ [d])
        = map (\<lambda>p. if fst p = ?n then (fst p, add_doc g d (snd p)) else p) (grouped_of g ds)"
      by (simp add: grouped_of_snoc group_doc_eq [OF own])
    also have "\<dots> = map (\<lambda>n. (n, accumulator_of g n (ds @ [d]))) ?names"
      using seen by (simp add: IH accumulator_of_snoc)
    finally show ?thesis
      using True by (simp add: first_seen_snoc)
  next
    case False
    then have unseen: "?n \<notin> group_name g ` set ds"
      by (simp add: set_first_seen)
    from False have "map_of (grouped_of g ds) ?n = None"
      by (simp add: IH map_of_tabulate)
    then have "grouped_of g (ds @ [d])
        = map (\<lambda>p. if fst p = ?n then (fst p, add_doc g d (snd p)) else p)
            (grouped_of g ds @ [(?n, new_acc g (group_key g d))])"
      by (simp add: grouped_of_snoc group_doc_eq [OF own])
    also have "\<dots> = map (\<lambda>n. (n, accumulator_of g n (ds @ [d]))) (?names @ [?n])"
      using unseen False by (auto simp: IH accumulator_of_snoc)
    finally show ?thesis
      using False by (simp add: first_seen_snoc)
  qed
qed

lemma map_insort_key:
  "map f (insort_key (\<lambda>x. k (f x)) x xs) = insort_key k (f x) (map f xs)"
  by (induction xs) auto

lemma map_sort_key: "map f (sort_key (\<lambda>x. k (f x)) xs) = sort_key k (map f xs)"
  by (induction xs) (auto simp: map_insort_key)

lemma map_own_order: "map f (own_order (\<lambda>x. name (f x)) xs) = own_order name (map f xs)"
  by (simp add: own_order_def filter_map comp_def
      map_sort_key [of f "\<lambda>x. index_of (name x)"])

lemma set_own_order: "set (own_order name xs) = set xs"
  by (auto simp: own_order_def)

lemma length_own_order: "length (own_order name xs) = length xs"
  using sum_length_filter_compl [of "\<lambda>x. array_index (name x) \<noteq> None" xs]
  by (simp add: own_order_def)

lemma distinct_own_order: "distinct xs \<Longrightarrow> distinct (own_order name xs)"
  by (auto simp: own_order_def)

lemma own_order_no_index:
  "\<forall>x \<in> set xs. array_index (name x) = None \<Longrightarrow> own_order name xs = xs"
  by (simp add: own_order_def)

lemma plain_keys_own:
  "plain_keys g ds \<Longrightarrow> \<forall>d \<in> set ds. group_name g d \<notin> set object_prototype_names"
  by (simp add: plain_keys_def list_all_iff)

text \<open>
  The documents that the group stage emits: the accumulators of the partitions, in
  the order of \<open>emitted_names\<close>.
\<close>

lemma group_stage_closed:
  assumes "plain_keys g ds"
  shows "group_stage g ds = map (\<lambda>n. accumulator_of g n ds) (emitted_names g ds)"
proof -
  let ?entry = "\<lambda>n. (n, accumulator_of g n ds)"
  let ?names = "first_seen (map (group_name g) ds)"
  have "own_entries (grouped_of g ds) = own_order fst (map ?entry ?names)"
    by (simp add: own_entries_def grouped_of_closed [OF plain_keys_own [OF assms]])
  also have "\<dots> = map ?entry (own_order (\<lambda>n. n) ?names)"
    using map_own_order [of ?entry fst ?names] by simp
  finally show ?thesis
    by (simp add: group_stage_def emitted_names_def comp_def)
qed

lemma set_emitted_names: "set (emitted_names g ds) = group_name g ` set ds"
  by (simp add: emitted_names_def set_own_order set_first_seen)

lemma distinct_emitted_names: "distinct (emitted_names g ds)"
  by (simp add: emitted_names_def distinct_own_order distinct_first_seen)

text \<open>
  C5, as stated: the group stage emits one accumulator document per distinct
  grouping-key value, in the order in which the keys are first encountered. It fails
  on order: grouping the ages 35, 30 emits the group of 30 before the group of 35,
  since \<open>Object.values\<close> lists the properties \<open>'30'\<close> and \<open>'35'\<close> as array indices. It
  fails on count: the keys \<open>1\<close> and \<open>'1'\<close> are two values and make one group.
\<close>

theorem group_order_counterexample:
  "map (\<lambda>acc. get acc ''_id'')
     (group_stage \<lparr>g_id = VStr ''age'', initial = [], g_keys = [''_id'']\<rparr>
        [[(''_id'', VNum 1), (''age'', VNum 35)], [(''_id'', VNum 2), (''age'', VNum 30)]])
     = [VNum 30, VNum 35]
   \<and> first_seen (map (group_key \<lparr>g_id = VStr ''age'', initial = [], g_keys = [''_id'']\<rparr>)
        [[(''_id'', VNum 1), (''age'', VNum 35)], [(''_id'', VNum 2), (''age'', VNum 30)]])
     = [VNum 35, VNum 30]
   \<and> length (group_stage \<lparr>g_id = VStr ''k'', initial = [], g_keys = [''_id'']\<rparr>
        [[(''_id'', VNum 1), (''k'', VNum 1)], [(''_id'', VNum 2), (''k'', VStr ''1'')]]) = 1
   \<and> length (first_seen (map (group_key \<lparr>g_id = VStr ''k'', initial = [], g_keys = [''_id'']\<rparr>)
        [[(''_id'', VNum 1), (''k'', VNum 1)], [(''_id'', VNum 2), (''k'', VStr ''1'')]])) = 2"
proof -
  have names: "show_int 1 = ''1''" "show_int 30 = ''30''" "show_int 35 = ''35''"
    by (simp_all add: string_defs)
  have indices: "array_index ''1'' = Some 1" "array_index ''30'' = Some 30"
    "array_index ''35'' = Some 35"
    by (simp_all add: string_defs)
  show ?thesis
    by (simp add: eval_defs names indices)
qed

text \<open>
  C5, amended: on a working set in which the name of the grouping field and every
  grouping key are printable (no number beyond the safe integers, no native function)
  and no key becomes the name of a member of \<open>Object.prototype\<close>, the group stage emits
  exactly one accumulator document per distinct string form of the grouping key. The
  groups whose key string is an array index come first, in ascending numeric order,
  and the other groups follow in the order in which their keys are first encountered;
  when no key string is an array index, the order is that of first encounter.
\<close>

theorem group_stage_order:
  assumes "plain_keys g ds"
  shows "group_stage g ds = map (\<lambda>n. accumulator_of g n ds) (emitted_names g ds)
   \<and> emitted_names g ds = own_order (\<lambda>n. n) (first_seen (map (group_name g) ds))
   \<and> length (group_stage g ds) = card (group_name g ` set ds)
   \<and> ((\<forall>d \<in> set ds. array_index (group_name g d) = None) \<longrightarrow>
        emitted_names g ds = first_seen (map (group_name g) ds))"
proof (intro conjI impI)
  show closed: "group_stage g ds = map (\<lambda>n. accumulator_of g n ds) (emitted_names g ds)"
    by (rule group_stage_closed [OF assms])
  show "emitted_names g ds = own_order (\<lambda>n. n) (first_seen (map (group_name g) ds))"
    by (simp add: emitted_names_def)
  have "length (group_stage g ds) = card (set (emitted_names g ds))"
    by (simp add: closed distinct_card distinct_emitted_names)
  then show "length (group_stage g ds) = card (group_name g ` set ds)"
    by (simp add: set_emitted_names)
  assume "\<forall>d \<in> set ds. array_index (group_name g d) = None"
  then have "\<forall>n \<in> set (first_seen (map (group_name g) ds)). array_index n = None"
    by (auto simp: set_first_seen)
  then show "emitted_names g ds = first_seen (map (group_name g) ds)"
    unfolding emitted_names_def by (rule own_order_no_index)
qed

theorem group_stage_order_witness:
  "plain_keys \<lparr>g_id = VStr ''city'', initial = [], g_keys = [''_id'']\<rparr>
      [[(''_id'', VNum 1), (''city'', VStr ''Oslo'')],
       [(''_id'', VNum 2), (''city'', VStr ''Bergen'')],
       [(''_id'', VNum 3), (''city'', VStr ''Oslo'')]]
   \<and> list_all (\<lambda>d. array_index
        (group_name \<lparr>g_id = VStr ''city'', initial = [], g_keys = [''_id'']\<rparr> d) = None)
      [[(''_id'', VNum 1), (''city'', VStr ''Oslo'')],
       [(''_id'', VNum 2), (''city'', VStr ''Bergen'')],
       [(''_id'', VNum 3), (''city'', VStr ''Oslo'')]]
   \<and> emitted_names \<lparr>g_id = VStr ''city'', initial = [], g_keys = [''_id'']\<rparr>
         [[(''_id'', VNum 1), (''city'', VStr ''Oslo'')],
          [(''_id'', VNum 2), (''city'', VStr ''Bergen'')],
          [(''_id'', VNum 3), (''city'', VStr ''Oslo'')]]
      = [''Oslo'', ''Bergen'']
   \<and> length (group_stage \<lparr>g_id = VStr ''city'', initial = [], g_keys = [''_id'']\<rparr>
         [[(''_id'', VNum 1), (''city'', VStr ''Oslo'')],
          [(''_id'', VNum 2), (''city'', VStr ''Bergen'')],
          [(''_id'', VNum 3), (''city'', VStr ''Oslo'')]]) = 2"
proof -
  let ?g = "\<lparr>g_id = VStr ''city'', initial = [], g_keys = [''_id'']\<rparr>"
  let ?ds = "[[(''_id'', VNum 1), (''city'', VStr ''Oslo'')],
              [(''_id'', VNum 2), (''city'', VStr ''Bergen'')],
              [(''_id'', VNum 3), (''city'', VStr ''Oslo'')]]"
  have indices: "array_index ''Oslo'' = None" "array_index ''Bergen'' = None"
    by (simp_all add: string_defs)
  have plain: "plain_keys ?g ?ds"
    by (simp add: plain_keys_def group_key_def group_name_def get_def own_names)
  have h: "\<forall>d \<in> set ?ds. array_index (group_name ?g d) = None"
    by (simp add: group_key_def group_name_def get_def indices)
  have seen: "first_seen (map (group_name ?g) ?ds) = [''Oslo'', ''Bergen'']"
    by (simp add: first_seen_def group_key_def group_name_def get_def)
  from group_stage_order [OF plain] h
  have names: "emitted_names ?g ?ds = first_seen (map (group_name ?g) ?ds)"
    and emitted: "group_stage ?g ?ds = map (\<lambda>n. accumulator_of ?g n ?ds) (emitted_names ?g ?ds)"
    by blast+
  from emitted have "length (group_stage ?g ?ds) = length (emitted_names ?g ?ds)"
    by simp
  with names plain h show ?thesis
    unfolding seen by (simp add: list_all_iff)
qed

lemma get_assign_other: "f \<noteq> k \<Longrightarrow> get (assign k v ob) f = get ob f"
  by (simp add: assign_def get_set_prop)

lemma get_assign_same:
  "(k = ''__proto__'' \<longrightarrow> map_of ob k \<noteq> None) \<Longrightarrow> get (assign k v ob) k = v"
  by (auto simp: assign_def get_set_prop)

lemma own_assign: "map_of ob f \<noteq> None \<Longrightarrow> map_of (assign k v ob) f \<noteq> None"
  by (simp add: assign_def map_of_set_prop)

lemma get_fold_accumulate_other:
  "f \<notin> set fs \<Longrightarrow> get (fold (accumulate d) fs acc) f = get acc f"
  by (induction fs arbitrary: acc) (auto simp: accumulate_def get_assign_other)

lemma own_fold_accumulate:
  "map_of acc f \<noteq> None \<Longrightarrow> map_of (fold (accumulate d) fs acc) f \<noteq> None"
proof (induction fs arbitrary: acc)
  case Nil
  then show ?case by simp
next
  case (Cons x fs)
  from Cons.prems have "map_of (accumulate d x acc) f \<noteq> None"
    unfolding accumulate_def by (rule own_assign)
  from Cons.IH [OF this] show ?case
    by simp
qed

lemma get_fold_accumulate:
  assumes "distinct fs" "f \<in> set fs" "f = ''__proto__'' \<longrightarrow> map_of acc f \<noteq> None"
  shows "get (fold (accumulate d) fs acc) f = js_add (js_or (get acc f) (VNum 0)) (get d f)"
  using assms
proof (induction fs arbitrary: acc)
  case Nil
  then show ?case by simp
next
  case (Cons x fs)
  show ?case
  proof (cases "f = x")
    case True
    with Cons.prems have "f \<notin> set fs"
      by simp
    then have "get (fold (accumulate d) (x # fs) acc) f = get (accumulate d x acc) f"
      by (simp add: get_fold_accumulate_other)
    moreover from Cons.prems(3) have "get (accumulate d f acc) f
        = js_add (js_or (get acc f) (VNum 0)) (get d f)"
      unfolding accumulate_def by (rule get_assign_same)
    ultimately show ?thesis
      using True by simp
  next
    case False
    with Cons.prems have rest: "distinct fs" "f \<in> set fs"
      by simp_all
    from Cons.prems(3) have own: "f = ''__proto__'' \<longrightarrow> map_of (accumulate d x acc) f \<noteq> None"
      by (simp add: accumulate_def own_assign)
    from False have "get (accumulate d x acc) f = get acc f"
      by (simp add: accumulate_def get_assign_other)
    with Cons.IH [OF rest own] show ?thesis
      by simp
  qed
qed

lemma get_add_doc_id: "get (add_doc g d acc) ''_id'' = get acc ''_id''"
  by (simp add: add_doc_def acc_fields_def get_fold_accumulate_other)

lemma get_fold_add_doc_id: "get (fold (add_doc g) ds acc) ''_id'' = get acc ''_id''"
  by (induction ds arbitrary: acc) (simp_all add: get_add_doc_id)

lemma get_new_acc_id:
  "get (new_acc g key) ''_id''
     = (if ''_id'' \<in> set (keys (initial g)) then get (initial g) ''_id'' else key)"
proof -
  have "get [(''_id'', key)] ''_id'' = key"
    by (simp add: get_def)
  then show ?thesis
    by (simp add: new_acc_def get_spread)
qed

lemma accumulator_id:
  assumes "n \<in> group_name g ` set ds"
  shows "\<exists>d rest. partition_of g n ds = d # rest
     \<and> get (accumulator_of g n ds) ''_id''
         = (if ''_id'' \<in> set (keys (initial g)) then get (initial g) ''_id'' else group_key g d)"
proof -
  from assms obtain d rest where part: "partition_of g n ds = d # rest"
    using partition_of_empty [of g n ds] by (cases "partition_of g n ds") auto
  then have "get (accumulator_of g n ds) ''_id'' = get (new_acc g (group_key g d)) ''_id''"
    unfolding accumulator_of_def by (simp only: list.case get_fold_add_doc_id)
  with part show ?thesis
    by (simp add: get_new_acc_id)
qed

text \<open>
  C10, as stated: documents whose grouping keys have the same string form share a
  group, and the \<open>_id\<close> of an emitted group is the grouping key of the first document of
  the group. The second part fails when \<open>initial\<close> has an \<open>_id\<close> of its own:
  \<open>{ _id: key, ...initial }\<close> takes the \<open>_id\<close> of \<open>initial\<close>.
\<close>

theorem group_id_counterexample:
  "map (\<lambda>acc. get acc ''_id'')
     (group_stage \<lparr>g_id = VStr ''k'', initial = [(''_id'', VNum 0)], g_keys = [''_id'', ''initial'']\<rparr>
        [[(''_id'', VNum 1), (''k'', VStr ''a'')]])
     = [VNum 0]
   \<and> map (group_key \<lparr>g_id = VStr ''k'', initial = [(''_id'', VNum 0)], g_keys = [''_id'', ''initial'']\<rparr>)
        [[(''_id'', VNum 1), (''k'', VStr ''a'')]]
     = [VStr ''a'']"
proof -
  have "array_index ''a'' = None"
    by (simp add: string_defs)
  then show ?thesis
    by (simp add: eval_defs)
qed

text \<open>
  C10, amended: on a working set in which the name of the grouping field and every
  grouping key are printable (no number beyond the safe integers, no native function)
  and no key becomes the name of a member of \<open>Object.prototype\<close>, the emitted groups
  are one per string form of the grouping keys, so that documents whose keys are
  distinct values with the same string form (the number 1 and the string \<open>'1'\<close>) are
  accumulated in the same group; the \<open>_id\<close> of an emitted group is the grouping key of
  the first document of the group, unless \<open>initial\<close> has an \<open>_id\<close> property, whose value
  it then is.
\<close>

theorem group_by_string_form:
  assumes "plain_keys g ds"
  shows "distinct (emitted_names g ds)
   \<and> set (emitted_names g ds) = group_name g ` set ds
   \<and> length (group_stage g ds) = length (emitted_names g ds)
   \<and> (\<forall>i < length (emitted_names g ds).
        group_stage g ds ! i = accumulator_of g (emitted_names g ds ! i) ds
        \<and> (\<exists>d rest. partition_of g (emitted_names g ds ! i) ds = d # rest
             \<and> get (group_stage g ds ! i) ''_id''
                 = (if ''_id'' \<in> set (keys (initial g)) then get (initial g) ''_id''
                    else group_key g d)))"
proof (intro conjI allI impI)
  have closed: "group_stage g ds = map (\<lambda>n. accumulator_of g n ds) (emitted_names g ds)"
    by (rule group_stage_closed [OF assms])
  show "distinct (emitted_names g ds)"
    by (rule distinct_emitted_names)
  show "set (emitted_names g ds) = group_name g ` set ds"
    by (rule set_emitted_names)
  show "length (group_stage g ds) = length (emitted_names g ds)"
    by (simp add: closed)
  fix i
  assume i: "i < length (emitted_names g ds)"
  then show at_i: "group_stage g ds ! i = accumulator_of g (emitted_names g ds ! i) ds"
    by (simp add: closed)
  from i have "emitted_names g ds ! i \<in> group_name g ` set ds"
    using set_emitted_names [of g ds] nth_mem by blast
  then show "\<exists>d rest. partition_of g (emitted_names g ds ! i) ds = d # rest
      \<and> get (group_stage g ds ! i) ''_id''
          = (if ''_id'' \<in> set (keys (initial g)) then get (initial g) ''_id'' else group_key g d)"
    unfolding at_i by (rule accumulator_id)
qed

theorem group_by_string_form_witness:
  "plain_keys \<lparr>g_id = VStr ''k'', initial = [], g_keys = [''_id'']\<rparr>
      [[(''_id'', VNum 1), (''k'', VNum 1)], [(''_id'', VNum 2), (''k'', VStr ''1'')]]
   \<and> emitted_names \<lparr>g_id = VStr ''k'', initial = [], g_keys = [''_id'']\<rparr>
        [[(''_id'', VNum 1), (''k'', VNum 1)], [(''_id'', VNum 2), (''k'', VStr ''1'')]]
     = [''1'']
   \<and> partition_of \<lparr>g_id = VStr ''k'', initial = [], g_keys = [''_id'']\<rparr> ''1''
        [[(''_id'', VNum 1), (''k'', VNum 1)], [(''_id'', VNum 2), (''k'', VStr ''1'')]]
     = [[(''_id'', VNum 1), (''k'', VNum 1)], [(''_id'', VNum 2), (''k'', VStr ''1'')]]
   \<and> length (group_stage \<lparr>g_id = VStr ''k'', initial = [], g_keys = [''_id'']\<rparr>
        [[(''_id'', VNum 1), (''k'', VNum 1)], [(''_id'', VNum 2), (''k'', VStr ''1'')]]) = 1
   \<and> get (group_stage \<lparr>g_id = VStr ''k'', initial = [], g_keys = [''_id'']\<rparr>
        [[(''_id'', VNum 1), (''k'', VNum 1)], [(''_id'', VNum 2), (''k'', VStr ''1'')]] ! 0) ''_id''
     = VNum 1"
proof -
  let ?g = "\<lparr>g_id = VStr ''k'', initial = [], g_keys = [''_id'']\<rparr>"
  let ?ds = "[[(''_id'', VNum 1), (''k'', VNum 1)], [(''_id'', VNum 2), (''k'', VStr ''1'')]]"
  have name: "show_int 1 = ''1''" and index: "array_index ''1'' = Some 1"
    by (simp_all add: string_defs)
  have plain: "plain_keys ?g ?ds"
    by (simp add: plain_keys_def group_key_def group_name_def get_def own_names name
        safe_int_def)
  have names: "emitted_names ?g ?ds = [''1'']"
    by (simp add: emitted_names_def own_order_def index_of_def first_seen_def group_key_def
        group_name_def get_def name index)
  have part: "partition_of ?g ''1'' ?ds = ?ds"
    by (simp add: partition_of_def group_key_def group_name_def get_def name)
  from group_by_string_form [OF plain]
  have len: "length (group_stage ?g ?ds) = length (emitted_names ?g ?ds)"
    and at: "\<forall>i < length (emitted_names ?g ?ds).
        \<exists>d rest. partition_of ?g (emitted_names ?g ?ds ! i) ?ds = d # rest
          \<and> get (group_stage ?g ?ds ! i) ''_id''
              = (if ''_id'' \<in> set (keys (initial ?g)) then get (initial ?g) ''_id''
                 else group_key ?g d)"
    by blast+
  from at have "\<exists>d rest. partition_of ?g ''1'' ?ds = d # rest
      \<and> get (group_stage ?g ?ds ! 0) ''_id''
          = (if ''_id'' \<in> set (keys (initial ?g)) then get (initial ?g) ''_id''
             else group_key ?g d)"
    unfolding names by simp
  then have "get (group_stage ?g ?ds ! 0) ''_id'' = VNum 1"
    unfolding part by (simp add: keys_def group_key_def get_def)
  with plain names part len show ?thesis
    by simp
qed

lemma own_add_doc: "map_of acc f \<noteq> None \<Longrightarrow> map_of (add_doc g d acc) f \<noteq> None"
  by (simp add: add_doc_def own_fold_accumulate)

lemma get_fold_add_doc:
  assumes "distinct (g_keys g)" "f \<in> set (acc_fields g)"
    and "f = ''__proto__'' \<longrightarrow> map_of acc f \<noteq> None"
  shows "get (fold (add_doc g) ps acc) f
     = foldl (\<lambda>a d. js_add (js_or a (VNum 0)) (get d f)) (get acc f) ps"
  using assms(3)
proof (induction ps arbitrary: acc)
  case Nil
  then show ?case by simp
next
  case (Cons p ps)
  from assms(1) have "distinct (acc_fields g)"
    by (simp add: acc_fields_def)
  with assms(2) Cons.prems have step: "get (add_doc g p acc) f
      = js_add (js_or (get acc f) (VNum 0)) (get p f)"
    by (simp add: add_doc_def get_fold_accumulate)
  from Cons.prems have "f = ''__proto__'' \<longrightarrow> map_of (add_doc g p acc) f \<noteq> None"
    by (simp add: own_add_doc)
  from Cons.IH [OF this] show ?case
    by (simp add: step)
qed

lemma foldl_group_numeric:
  "\<forall>d \<in> set ps. \<exists>m. get d f = VNum m \<Longrightarrow>
   foldl (\<lambda>a d. js_add (js_or a (VNum 0)) (get d f)) (VNum a) ps = VNum (a + spec_total f ps)"
proof (induction ps arbitrary: a)
  case Nil
  then show ?case by (simp add: spec_total_def)
next
  case (Cons p ps)
  from Cons.prems obtain m where m: "get p f = VNum m"
    by auto
  have "js_add (js_or (VNum a) (VNum 0)) (get p f) = VNum (a + m)"
    by (simp add: m js_or_numeric js_add_nums)
  with Cons show ?case
    by (simp add: spec_total_def m)
qed

lemma get_new_acc_field:
  assumes "f \<noteq> ''_id''"
  shows "get (new_acc g key) f = get (initial g) f"
proof (cases "f \<in> set (keys (initial g))")
  case True
  then show ?thesis
    by (simp add: new_acc_def get_spread)
next
  case False
  then have "map_of (initial g) f = None"
    by (rule map_of_missing)
  with assms have "get [(''_id'', key)] f = get (initial g) f"
    by (simp add: get_def)
  with False show ?thesis
    by (simp add: new_acc_def get_spread)
qed

lemma own_new_acc:
  assumes "(\<exists>s. get (initial g) f = VNum s) \<or> \<not> truthy (get (initial g) f)"
  shows "f = ''__proto__'' \<longrightarrow> map_of (new_acc g key) f \<noteq> None"
proof
  assume f: "f = ''__proto__''"
  have "f \<in> set (keys (initial g))"
  proof (rule ccontr)
    assume "f \<notin> set (keys (initial g))"
    with f have "get (initial g) f = VBuiltin f"
      by (simp add: get_inherited object_prototype_names_def)
    with assms show False
      by simp
  qed
  then show "map_of (new_acc g key) f \<noteq> None"
    by (simp add: new_acc_def spread_def map_of_fold_set_prop)
qed

text \<open>
  C2, as stated: the value that an emitted group has at an accumulator field is the sum
  of the partition's numeric values at the field, a missing or non-numeric value
  counting 0. It fails for a non-numeric value, which \<open>+\<close> concatenates
  (\<open>(undefined || 0) + '5'\<close> is \<open>'05'\<close>), and when \<open>initial\<close> has the field, whose value
  the sum starts from (10 + 5 is 15).
\<close>

theorem group_sum_counterexample:
  "map (\<lambda>acc. get acc ''amount'')
     (group_stage \<lparr>g_id = VStr ''city'', initial = [], g_keys = [''_id'', ''amount'']\<rparr>
        [[(''_id'', VNum 1), (''city'', VStr ''Oslo''), (''amount'', VStr ''5'')]])
     = [VStr ''05'']
   \<and> spec_total ''amount''
        (partition_of \<lparr>g_id = VStr ''city'', initial = [], g_keys = [''_id'', ''amount'']\<rparr> ''Oslo''
          [[(''_id'', VNum 1), (''city'', VStr ''Oslo''), (''amount'', VStr ''5'')]]) = 0
   \<and> map (\<lambda>acc. get acc ''amount'')
       (group_stage \<lparr>g_id = VStr ''city'', initial = [(''amount'', VNum 10)],
                      g_keys = [''_id'', ''initial'', ''amount'']\<rparr>
          [[(''_id'', VNum 1), (''city'', VStr ''Oslo''), (''amount'', VNum 5)]])
     = [VNum 15]
   \<and> spec_total ''amount''
        (partition_of \<lparr>g_id = VStr ''city'', initial = [(''amount'', VNum 10)],
                        g_keys = [''_id'', ''initial'', ''amount'']\<rparr> ''Oslo''
          [[(''_id'', VNum 1), (''city'', VStr ''Oslo''), (''amount'', VNum 5)]]) = 5"
proof -
  have "array_index ''Oslo'' = None" "show_int 0 = ''0''"
    by (simp_all add: string_defs)
  then show ?thesis
    by (simp add: eval_defs)
qed

text \<open>
  C2, amended: on a working set in which the name of the grouping field and every
  grouping key are printable and no key becomes the name of a member of
  \<open>Object.prototype\<close>, for an accumulator field (a key of the group specification
  other than \<open>_id\<close> and \<open>initial\<close>) and an emitted group whose documents all hold an
  integer at the field, the group's value at the field is the sum of these integers,
  added to the value that \<open>initial\<close> has at the field when that is an integer, and to 0
  when \<open>initial\<close> holds a falsy value there or lacks the field (and the field is no name
  that \<open>Object.prototype\<close> supplies); this when the absolute values of all these
  integers add up to a safe integer, so that every addition is exact. (The keys of the
  group specification are those of an object, hence distinct.)
\<close>

theorem group_sum:
  assumes "plain_keys g ds" and "i < length (emitted_names g ds)"
    and "f \<in> set (acc_fields g)" and "distinct (g_keys g)"
    and "\<forall>d \<in> set (partition_of g (emitted_names g ds ! i) ds). \<exists>m. get d f = VNum m"
    and "(\<exists>s. get (initial g) f = VNum s) \<or> \<not> truthy (get (initial g) f)"
    and "safe_int (\<bar>numeric_or_zero (get (initial g) f)\<bar>
           + safe_total f (partition_of g (emitted_names g ds ! i) ds))"
  shows "get (group_stage g ds ! i) f
     = VNum (numeric_or_zero (get (initial g) f)
         + spec_total f (partition_of g (emitted_names g ds ! i) ds))"
proof -
  let ?n = "emitted_names g ds ! i"
  from assms(2) have at_i: "group_stage g ds ! i = accumulator_of g ?n ds"
    by (simp add: group_stage_closed [OF assms(1)])
  from assms(2) have "?n \<in> group_name g ` set ds"
    using set_emitted_names [of g ds] nth_mem by blast
  then obtain d rest where part: "partition_of g ?n ds = d # rest"
    using partition_of_empty [of g ?n ds] by (cases "partition_of g ?n ds") auto
  from assms(3) have f: "f \<noteq> ''_id''"
    by (simp add: acc_fields_def)
  from assms(5) obtain m where m: "get d f = VNum m"
    by (auto simp: part)
  from assms(5) have rest: "\<forall>d \<in> set rest. \<exists>m. get d f = VNum m"
    by (simp add: part)
  let ?seed = "get (initial g) f"
  have "get (accumulator_of g ?n ds) f
      = foldl (\<lambda>a d. js_add (js_or a (VNum 0)) (get d f)) ?seed (d # rest)"
    unfolding accumulator_of_def part
    by (simp only: list.case get_fold_add_doc [OF assms(4,3) own_new_acc [OF assms(6)]]
        get_new_acc_field [OF f])
  also have "\<dots> = foldl (\<lambda>a d. js_add (js_or a (VNum 0)) (get d f))
      (VNum (numeric_or_zero ?seed + m)) rest"
    by (simp add: m js_or_numeric [OF assms(6)] js_add_nums)
  also have "\<dots> = VNum (numeric_or_zero ?seed + m + spec_total f rest)"
    by (rule foldl_group_numeric [OF rest])
  finally show ?thesis
    by (simp add: at_i part spec_total_def m)
qed

theorem group_sum_witness:
  "plain_keys \<lparr>g_id = VStr ''city'', initial = [(''amount'', VNum 10)],
            g_keys = [''_id'', ''initial'', ''amount'']\<rparr>
          [[(''_id'', VNum 1), (''city'', VStr ''Oslo''), (''amount'', VNum 5)],
           [(''_id'', VNum 2), (''city'', VStr ''Bergen''), (''amount'', VNum 7)],
           [(''_id'', VNum 3), (''city'', VStr ''Oslo''), (''amount'', VNum 6)]]
   \<and> emitted_names \<lparr>g_id = VStr ''city'', initial = [(''amount'', VNum 10)],
            g_keys = [''_id'', ''initial'', ''amount'']\<rparr>
          [[(''_id'', VNum 1), (''city'', VStr ''Oslo''), (''amount'', VNum 5)],
           [(''_id'', VNum 2), (''city'', VStr ''Bergen''), (''amount'', VNum 7)],
           [(''_id'', VNum 3), (''city'', VStr ''Oslo''), (''amount'', VNum 6)]]
       = [''Oslo'', ''Bergen'']
   \<and> get (group_stage \<lparr>g_id = VStr ''city'', initial = [(''amount'', VNum 10)],
            g_keys = [''_id'', ''initial'', ''amount'']\<rparr>
          [[(''_id'', VNum 1), (''city'', VStr ''Oslo''), (''amount'', VNum 5)],
           [(''_id'', VNum 2), (''city'', VStr ''Bergen''), (''amount'', VNum 7)],
           [(''_id'', VNum 3), (''city'', VStr ''Oslo''), (''amount'', VNum 6)]] ! 0) ''amount''
       = VNum 21"
proof -
  let ?g = "\<lparr>g_id = VStr ''city'', initial = [(''amount'', VNum 10)],
            g_keys = [''_id'', ''initial'', ''amount'']\<rparr>"
  let ?ds = "[[(''_id'', VNum 1), (''city'', VStr ''Oslo''), (''amount'', VNum 5)],
           [(''_id'', VNum 2), (''city'', VStr ''Bergen''), (''amount'', VNum 7)],
           [(''_id'', VNum 3), (''city'', VStr ''Oslo''), (''amount'', VNum 6)]]"
  have indices: "array_index ''Oslo'' = None" "array_index ''Bergen'' = None"
    by (simp_all add: string_defs)
  have plain: "plain_keys ?g ?ds"
    by (simp add: plain_keys_def group_key_def group_name_def get_def own_names)
  have names: "emitted_names ?g ?ds = [''Oslo'', ''Bergen'']"
    by (simp add: emitted_names_def own_order_def first_seen_def group_key_def
        group_name_def get_def indices)
  have i: "0 < length (emitted_names ?g ?ds)"
    by (simp add: names)
  have field: "''amount'' \<in> set (acc_fields ?g)" and keys: "distinct (g_keys ?g)"
    by (simp_all add: acc_fields_def)
  have part: "partition_of ?g (emitted_names ?g ?ds ! 0) ?ds
      = [[(''_id'', VNum 1), (''city'', VStr ''Oslo''), (''amount'', VNum 5)],
         [(''_id'', VNum 3), (''city'', VStr ''Oslo''), (''amount'', VNum 6)]]"
    by (simp add: names partition_of_def group_key_def group_name_def get_def)
  have nums: "\<forall>d \<in> set (partition_of ?g (emitted_names ?g ?ds ! 0) ?ds).
      \<exists>m. get d ''amount'' = VNum m"
    unfolding part by (simp add: get_def)
  have seed: "(\<exists>s. get (initial ?g) ''amount'' = VNum s) \<or> \<not> truthy (get (initial ?g) ''amount'')"
    by (simp add: get_def)
  have safe: "safe_int (\<bar>numeric_or_zero (get (initial ?g) ''amount'')\<bar>
      + safe_total ''amount'' (partition_of ?g (emitted_names ?g ?ds ! 0) ?ds))"
    unfolding part by (simp add: safe_int_def safe_total_def get_def)
  from group_sum [OF plain i field keys nums seed safe] plain names show ?thesis
    unfolding part by (simp add: spec_total_def get_def)
qed

text \<open>
  A document without the field is not covered by the statement above: the step adds
  \<open>undefined\<close> and the running value becomes \<open>NaN\<close>, from which the next document
  starts again at 0 (\<open>NaN || 0\<close>).
\<close>

lemma group_missing_field:
  "map (\<lambda>acc. get acc ''amount'')
     (group_stage \<lparr>g_id = VStr ''city'', initial = [], g_keys = [''_id'', ''amount'']\<rparr>
        [[(''_id'', VNum 1), (''city'', VStr ''Oslo''), (''amount'', VNum 3)],
         [(''_id'', VNum 2), (''city'', VStr ''Oslo'')]])
     = [VNaN]
   \<and> map (\<lambda>acc. get acc ''amount'')
       (group_stage \<lparr>g_id = VStr ''city'', initial = [], g_keys = [''_id'', ''amount'']\<rparr>
          [[(''_id'', VNum 1), (''city'', VStr ''Oslo''), (''amount'', VNum 3)],
           [(''_id'', VNum 2), (''city'', VStr ''Oslo'')],
           [(''_id'', VNum 3), (''city'', VStr ''Oslo''), (''amount'', VNum 4)]])
     = [VNum 4]"
proof -
  have "array_index ''Oslo'' = None"
    by (simp add: string_defs)
  then show ?thesis
    by (simp add: eval_defs)
qed

end
